theory Spec2Isabelle
  imports Complex_Main "HOL-Library.Sublist"
begin

section \<open>Data model (models.py)\<close>

datatype CircuitState = CLOSED | OPEN | HALF_OPEN

text \<open>
  \<^verbatim>\<open>class CircuitBreaker(BaseModel)\<close>. Python integers are unbounded, so the counters are
  \<open>int\<close>. A \<^verbatim>\<open>datetime\<close> is a point on the wall clock, here a number of seconds.
\<close>

record CircuitBreaker =
  service_name :: string
  state :: CircuitState
  failure_count :: int
  last_failure_time :: "real option"
  failure_threshold :: int
  timeout_seconds :: int

section \<open>Exceptions, backend operations and the environment\<close>

text \<open>
  An exception is its class name and the text \<^verbatim>\<open>str(e)\<close> gives; the code only ever looks at
  the text. Everything a backend operation raises is taken to be an \<^verbatim>\<open>Exception\<close>, which
  is what \<^verbatim>\<open>except Exception\<close> catches.
\<close>

datatype exn = Exn (cls: string) (str: string)

datatype 'r outcome = Returns 'r | Raises exn

text \<open>
  The environment the mesh runs in: the wall clock \<^verbatim>\<open>datetime.now()\<close> reads, the number
  of times a backend operation has been awaited so far, the arguments \<^verbatim>\<open>asyncio.sleep\<close> has
  been given, oldest first, and the number of draws made from \<^verbatim>\<open>random\<close>.
\<close>

record world =
  now :: real
  calls :: nat
  slept :: "real list"
  draws :: nat

text \<open>
  A backend operation is opaque: awaiting it returns a result or raises, after some time.
  It is given by what each invocation does, numbered by \<open>calls\<close>: the outcome and the time
  the invocation takes. Calls run one after the other; no other call is interleaved at
  an \<^verbatim>\<open>await\<close>.
\<close>

type_synonym 'r service_func = "nat \<Rightarrow> 'r outcome \<times> real"

definition invoke :: "'r service_func \<Rightarrow> world \<Rightarrow> 'r outcome \<times> world" where
  "invoke service_func w =
     (fst (service_func (calls w)),
      w\<lparr>now := now w + snd (service_func (calls w)), calls := Suc (calls w)\<rparr>)"

text \<open>\<^verbatim>\<open>asyncio.sleep(d)\<close>: the argument is logged, the clock moves on by \<open>d\<close> when \<open>d\<close> is positive.\<close>

definition sleep :: "real \<Rightarrow> world \<Rightarrow> world" where
  "sleep d w = w\<lparr>now := now w + max 0 d, slept := slept w @ [d]\<rparr>"

text \<open>
  \<^verbatim>\<open>random.uniform(a, b)\<close> is \<^verbatim>\<open>a + (b - a) * random()\<close>; the values \<^verbatim>\<open>random()\<close> gives,
  in draw order, are the function \<open>rnd\<close>.
\<close>

definition uniform :: "real \<Rightarrow> real \<Rightarrow> (nat \<Rightarrow> real) \<Rightarrow> world \<Rightarrow> real \<times> world" where
  "uniform a b rnd w = (a + (b - a) * rnd (draws w), w\<lparr>draws := Suc (draws w)\<rparr>)"

section \<open>Circuit breaker (mesh/circuit\_breaker.py)\<close>

record CircuitBreakerManager =
  breakers :: "string \<rightharpoonup> CircuitBreaker"
  mgr_failure_threshold :: int
  mgr_timeout_seconds :: int

definition CircuitBreakerManager_init :: CircuitBreakerManager where
  "CircuitBreakerManager_init =
     \<lparr>breakers = Map.empty, mgr_failure_threshold = 3, mgr_timeout_seconds = 30\<rparr>"

definition new_breaker :: "CircuitBreakerManager \<Rightarrow> string \<Rightarrow> CircuitBreaker" where
  "new_breaker m name =
     \<lparr>service_name = name, state = CLOSED, failure_count = 0, last_failure_time = None,
      failure_threshold = mgr_failure_threshold m, timeout_seconds = mgr_timeout_seconds m\<rparr>"

text \<open>\<^verbatim>\<open>get_breaker\<close>: the breaker of the service, created and stored when there is none.\<close>

definition get_breaker ::
  "CircuitBreakerManager \<Rightarrow> string \<Rightarrow> CircuitBreaker \<times> CircuitBreakerManager" where
  "get_breaker m name =
     (case breakers m name of
        None \<Rightarrow> (new_breaker m name, m\<lparr>breakers := (breakers m)(name \<mapsto> new_breaker m name)\<rparr>)
      | Some b \<Rightarrow> (b, m))"

text \<open>
  The breaker objects are mutated in place through the dictionary; the model writes the
  changed breaker back under its name.
\<close>

definition store :: "CircuitBreakerManager \<Rightarrow> string \<Rightarrow> CircuitBreaker \<Rightarrow> CircuitBreakerManager" where
  "store m name b = m\<lparr>breakers := (breakers m)(name \<mapsto> b)\<rparr>"

definition should_attempt_reset :: "CircuitBreaker \<Rightarrow> world \<Rightarrow> bool" where
  "should_attempt_reset b w =
     (case last_failure_time b of
        None \<Rightarrow> True
      | Some t \<Rightarrow> now w - t > real_of_int (timeout_seconds b))"

definition circuit_open_error :: "string \<Rightarrow> exn" where
  "circuit_open_error name =
     Exn ''Exception'' (''Circuit breaker OPEN for '' @ name @ '' - service unavailable'')"

text \<open>Lines 32 to 37 of \<^verbatim>\<open>call_service\<close>: the check made before the backend is tried.\<close>

definition check_circuit :: "CircuitBreaker \<Rightarrow> string \<Rightarrow> world \<Rightarrow> exn + CircuitBreaker" where
  "check_circuit b name w =
     (if state b = OPEN then
        (if should_attempt_reset b w then Inr (b\<lparr>state := HALF_OPEN\<rparr>)
         else Inl (circuit_open_error name))
      else Inr b)"

text \<open>Lines 44 to 49: the bookkeeping after the backend returned.\<close>

definition on_success :: "CircuitBreaker \<Rightarrow> CircuitBreaker" where
  "on_success b =
     (if state b = HALF_OPEN then b\<lparr>state := CLOSED, failure_count := 0\<rparr>
      else if state b = CLOSED then b\<lparr>failure_count := 0\<rparr>
      else b)"

text \<open>Lines 55 to 62: the bookkeeping after the backend raised.\<close>

definition on_failure :: "CircuitBreaker \<Rightarrow> world \<Rightarrow> CircuitBreaker" where
  "on_failure b w =
     (let b1 = b\<lparr>failure_count := failure_count b + 1, last_failure_time := Some (now w)\<rparr>
      in if failure_count b1 \<ge> failure_threshold b1 then b1\<lparr>state := OPEN\<rparr> else b1)"

definition call_service ::
  "CircuitBreakerManager \<Rightarrow> string \<Rightarrow> 'r service_func \<Rightarrow> world
     \<Rightarrow> (exn + 'r) \<times> CircuitBreakerManager \<times> world" where
  "call_service m name service_func w =
     (case get_breaker m name of (breaker, m1) \<Rightarrow>
        (case check_circuit breaker name w of
           Inl e \<Rightarrow> (Inl e, m1, w)
         | Inr b1 \<Rightarrow>
             (case invoke service_func w of
                (Returns result, w1) \<Rightarrow> (Inr result, store m1 name (on_success b1), w1)
              | (Raises e, w1) \<Rightarrow> (Inl e, store m1 name (on_failure b1 w1), w1))))"

definition get_status ::
  "CircuitBreakerManager \<Rightarrow> (string \<rightharpoonup> CircuitState \<times> int \<times> real option)" where
  "get_status m =
     (\<lambda>name. map_option (\<lambda>b. (state b, failure_count b, last_failure_time b)) (breakers m name))"

definition reset_breaker :: "CircuitBreakerManager \<Rightarrow> string \<Rightarrow> bool \<times> CircuitBreakerManager" where
  "reset_breaker m name =
     (case breakers m name of
        Some breaker \<Rightarrow>
          (True, store m name (breaker\<lparr>state := CLOSED, failure_count := 0,
                                       last_failure_time := None\<rparr>))
      | None \<Rightarrow> (False, m))"

section \<open>Retry handler (mesh/retry\_handler.py)\<close>

record RetryHandler =
  max_attempts :: int
  base_delay :: real

text \<open>
  Lines 37 to 43: the wait after a failed attempt that is not the last one. The result
  is \<open>None\<close> when the wait never ends.

  \<^verbatim>\<open>self.base_delay * (2 ** (attempt - 1))\<close> multiplies a float by an integer, which is
  converted to a float first; from \<^verbatim>\<open>2 ** 1024\<close> on that conversion raises
  \<^verbatim>\<open>OverflowError\<close>, before the jitter is drawn. The product of a float and a power of
  two is exact as long as it is a float; from \<open>2 ^ 1024\<close> on it is infinite, and
  \<^verbatim>\<open>asyncio.sleep\<close> of an infinite delay never returns. Otherwise the delays are taken as
  real numbers; the rounding of \<^verbatim>\<open>delay + jitter\<close> is not modelled.
\<close>

definition overflow_error :: exn where
  "overflow_error = Exn ''OverflowError'' ''int too large to convert to float''"

definition backoff ::
  "RetryHandler \<Rightarrow> (nat \<Rightarrow> real) \<Rightarrow> int \<Rightarrow> world \<Rightarrow> (exn + world) option" where
  "backoff h rnd attempt w =
     (if attempt < max_attempts h then
        (if 1024 \<le> attempt - 1 then Some (Inl overflow_error)
         else
           (let delay = base_delay h * 2 ^ nat (attempt - 1);
                (jitter, w1) = uniform 0 0.1 rnd w;
                total_delay = delay + jitter
            in if 2 ^ 1024 \<le> delay then None else Some (Inr (sleep total_delay w1))))
      else Some (Inr w))"

text \<open>
  \<^verbatim>\<open>raise last_exception\<close> after the loop. When the loop body never ran the variable is
  still \<^verbatim>\<open>None\<close>, and raising \<^verbatim>\<open>None\<close> is a \<^verbatim>\<open>TypeError\<close>.
\<close>

definition raise_last :: "exn option \<Rightarrow> exn" where
  "raise_last last_exception =
     (case last_exception of
        Some e \<Rightarrow> e
      | None \<Rightarrow> Exn ''TypeError'' ''exceptions must derive from BaseException'')"

text \<open>
  The loop \<^verbatim>\<open>for attempt in range(1, self.max_attempts + 1)\<close>, from \<open>attempt\<close> on. A
  failure raised in the \<^verbatim>\<open>except\<close> block, while the wait is worked out, leaves
  \<^verbatim>\<open>retry_call\<close>. The result is \<open>None\<close> when the call never returns. The loop starts
  at \<open>attempt = 1\<close>, so the exponent \<open>attempt - 1\<close> is never negative.
\<close>

function retry_loop ::
  "RetryHandler \<Rightarrow> 'r service_func \<Rightarrow> (nat \<Rightarrow> real) \<Rightarrow> int \<Rightarrow> exn option \<Rightarrow> world
     \<Rightarrow> ((exn + 'r) \<times> world) option" where
  "retry_loop h func rnd attempt last_exception w =
     (if attempt < max_attempts h + 1 then
        (case invoke func w of
           (Returns result, w1) \<Rightarrow> Some (Inr result, w1)
         | (Raises e, w1) \<Rightarrow>
             (case backoff h rnd attempt w1 of
                None \<Rightarrow> None
              | Some (Inl overflow) \<Rightarrow> Some (Inl overflow, w1)
              | Some (Inr w2) \<Rightarrow> retry_loop h func rnd (attempt + 1) (Some e) w2))
      else Some (Inl (raise_last last_exception), w))"
  by pat_completeness auto
termination
  by (relation "measure (\<lambda>(h, func, rnd, attempt, last_exception, w).
                   nat (max_attempts h + 1 - attempt))") auto

definition retry_call ::
  "RetryHandler \<Rightarrow> string \<Rightarrow> 'r service_func \<Rightarrow> (nat \<Rightarrow> real) \<Rightarrow> world
     \<Rightarrow> ((exn + 'r) \<times> world) option" where
  "retry_call h name func rnd w = retry_loop h func rnd 1 None w"

text \<open>\<^verbatim>\<open>str.lower\<close> on the ASCII letters, which is all the texts matched below contain.\<close>

definition lower_char :: "char \<Rightarrow> char" where
  "lower_char c =
     (if 65 \<le> (of_char c :: nat) \<and> (of_char c :: nat) \<le> 90
      then char_of (of_char c + 32 :: nat) else c)"

definition lower :: "string \<Rightarrow> string" where
  "lower s = map lower_char s"

definition non_retryable :: "string list" where
  "non_retryable = [''not found'', ''unauthorized'', ''forbidden'', ''bad request'']"

text \<open>The loop of \<^verbatim>\<open>should_retry\<close>: \<^verbatim>\<open>False\<close> at the first entry found in the text.\<close>

fun should_retry_loop :: "string list \<Rightarrow> string \<Rightarrow> bool" where
  "should_retry_loop [] error_message = True"
| "should_retry_loop (non_retry # rest) error_message =
     (if sublist non_retry error_message then False else should_retry_loop rest error_message)"

definition should_retry :: "exn \<Rightarrow> bool" where
  "should_retry exception = should_retry_loop non_retryable (lower (str exception))"

section \<open>Gateway (gateway.py)\<close>

record ServiceMeshGateway =
  circuit_breaker :: CircuitBreakerManager
  retry_handler :: RetryHandler

definition ServiceMeshGateway_init :: ServiceMeshGateway where
  "ServiceMeshGateway_init =
     \<lparr>circuit_breaker = CircuitBreakerManager_init,
      retry_handler = \<lparr>max_attempts = 3, base_delay = 1.0\<rparr>\<rparr>"

definition call_with_mesh ::
  "ServiceMeshGateway \<Rightarrow> string \<Rightarrow> 'r service_func \<Rightarrow> (nat \<Rightarrow> real) \<Rightarrow> world
     \<Rightarrow> ((exn + 'r) \<times> ServiceMeshGateway \<times> world) option" where
  "call_with_mesh g name service_func rnd w =
     (case call_service (circuit_breaker g) name service_func w of
        (Inr result, m1, w1) \<Rightarrow> Some (Inr result, g\<lparr>circuit_breaker := m1\<rparr>, w1)
      | (Inl e, m1, w1) \<Rightarrow>
          (if \<not> sublist ''Circuit breaker OPEN'' (str e) then
             (case retry_call (retry_handler g) name service_func rnd w1 of
                None \<Rightarrow> None
              | Some (r, w2) \<Rightarrow> Some (r, g\<lparr>circuit_breaker := m1\<rparr>, w2))
           else Some (Inl e, g\<lparr>circuit_breaker := m1\<rparr>, w1)))"

section \<open>Reachable registry states\<close>

text \<open>
  The registries a manager can hold: the empty one it is constructed with, and whatever
  \<^verbatim>\<open>call_service\<close>, \<^verbatim>\<open>get_status\<close> and \<^verbatim>\<open>reset_breaker\<close> make of a reachable one, for any
  service name, any backend and any state of the environment.
\<close>

inductive reachable :: "CircuitBreakerManager \<Rightarrow> bool" where
  init: "reachable CircuitBreakerManager_init"
| call: "reachable m \<Longrightarrow> call_service m name (service_func :: unit service_func) w = (r, m', w')
           \<Longrightarrow> reachable m'"
| status: "reachable m \<Longrightarrow> get_status m = s \<Longrightarrow> reachable m"
| reset: "reachable m \<Longrightarrow> reset_breaker m name = (known, m') \<Longrightarrow> reachable m'"

text \<open>
  The value a backend returns plays no part in the bookkeeping, so the backends of
  \<open>reachable\<close> return nothing; \<open>erase\<close> forgets the values of a backend.
\<close>

definition erase :: "'r service_func \<Rightarrow> unit service_func" where
  "erase service_func =
     (\<lambda>i. (case fst (service_func i) of Returns result \<Rightarrow> Returns () | Raises e \<Rightarrow> Raises e,
           snd (service_func i)))"

section \<open>Example inputs\<close>

text \<open>
  Concrete environments, backends and registries the theorems below are run on. The
  texts of the failures are the ones the services of the repository raise.
\<close>

definition w0 :: world where
  "w0 = \<lparr>now = 1000, calls = 0, slept = [], draws = 0\<rparr>"

definition half :: "nat \<Rightarrow> real" where
  "half = (\<lambda>i. 1 / 2)"

definition db_down :: "'r service_func" where
  "db_down = (\<lambda>i. (Raises (Exn ''Exception'' ''Database connection failed''), 1))"

definition not_found :: "'r service_func" where
  "not_found = (\<lambda>i. (Raises (Exn ''Exception'' ''Product 999 not found''), 1))"

definition healthy :: "string service_func" where
  "healthy = (\<lambda>i. (Returns ''ok'', 1))"

text \<open>
  A backend that fails twice and then succeeds.
\<close>

definition flaky :: "string service_func" where
  "flaky = (\<lambda>i. if i < 2 then (Raises (Exn ''Exception'' ''Payment processing failed''), 1)
                 else (Returns ''paid'', 1))"

text \<open>
  A backend that sits behind a mesh of its own and, on its first invocation, passes on
  the failure of that mesh's open breaker.
\<close>

definition relay :: "string service_func" where
  "relay = (\<lambda>i. if i = 0
                 then (Raises (Exn ''Exception'' ''Circuit breaker OPEN for inventory - service unavailable''), 1)
                 else (Returns ''ok'', 1))"

text \<open>
  The registry after three failing calls to \<open>''catalog''\<close> in \<open>w0\<close>.
\<close>

definition open_catalog :: CircuitBreaker where
  "open_catalog =
     \<lparr>service_name = ''catalog'', state = OPEN, failure_count = 3,
      last_failure_time = Some 1003, failure_threshold = 3, timeout_seconds = 30\<rparr>"

definition tripped :: CircuitBreakerManager where
  "tripped =
     \<lparr>breakers = [''catalog'' \<mapsto> open_catalog], mgr_failure_threshold = 3,
      mgr_timeout_seconds = 30\<rparr>"

section \<open>Auxiliary facts\<close>

lemmas model_defs = call_service_def get_breaker_def check_circuit_def should_attempt_reset_def
  on_success_def on_failure_def store_def new_breaker_def invoke_def circuit_open_error_def

declare retry_loop.simps [simp del]

lemma tripped_reachable: "reachable tripped"
proof -
  let ?f = "db_down :: unit service_func"
  let ?e = "Exn ''Exception'' ''Database connection failed''"
  let ?b1 = "open_catalog\<lparr>state := CLOSED, failure_count := 1, last_failure_time := Some 1001\<rparr>"
  let ?b2 = "open_catalog\<lparr>state := CLOSED, failure_count := 2, last_failure_time := Some 1002\<rparr>"
  let ?m1 = "tripped\<lparr>breakers := [''catalog'' \<mapsto> ?b1]\<rparr>"
  let ?m2 = "tripped\<lparr>breakers := [''catalog'' \<mapsto> ?b2]\<rparr>"
  have s1: "call_service CircuitBreakerManager_init ''catalog'' ?f w0
              = (Inl ?e, ?m1, w0\<lparr>now := 1001, calls := 1\<rparr>)"
    by (simp add: model_defs CircuitBreakerManager_init_def tripped_def open_catalog_def
          w0_def db_down_def Let_def)
  have s2: "call_service ?m1 ''catalog'' ?f (w0\<lparr>now := 1001, calls := 1\<rparr>)
              = (Inl ?e, ?m2, w0\<lparr>now := 1002, calls := 2\<rparr>)"
    by (simp add: model_defs tripped_def open_catalog_def w0_def db_down_def Let_def)
  have s3: "call_service ?m2 ''catalog'' ?f (w0\<lparr>now := 1002, calls := 2\<rparr>)
              = (Inl ?e, tripped, w0\<lparr>now := 1003, calls := 3\<rparr>)"
    by (simp add: model_defs tripped_def open_catalog_def w0_def db_down_def Let_def)
  from reachable.call [OF reachable.call [OF reachable.call [OF reachable.init s1] s2] s3]
  show ?thesis .
qed

lemma call_service_erase:
  "fst (snd (call_service m name (erase service_func) w))
     = fst (snd (call_service m name service_func w))"
  by (simp add: call_service_def invoke_def erase_def
        split: prod.splits sum.splits outcome.splits)

lemma reachable_call_service:
  assumes "reachable m"
  shows "reachable (fst (snd (call_service m name service_func w)))"
proof -
  obtain r m' w' where c: "call_service m name (erase service_func) w = (r, m', w')"
    by (cases "call_service m name (erase service_func) w") auto
  from reachable.call [OF assms c] have "reachable m'" .
  moreover from c have "m' = fst (snd (call_service m name service_func w))"
    using call_service_erase [of m name service_func w] by simp
  ultimately show ?thesis by simp
qed

text \<open>
  The invariant of the registry: a breaker is only ever set to \<open>OPEN\<close> in the failure
  branch, right after the count was found at the threshold and the time was recorded.
\<close>

lemma reachable_open:
  "reachable m \<Longrightarrow> breakers m name = Some b \<Longrightarrow> state b = OPEN \<Longrightarrow>
     failure_threshold b \<le> failure_count b \<and> last_failure_time b \<noteq> None"
proof (induction arbitrary: name b rule: reachable.induct)
  case init
  then show ?case by (simp add: CircuitBreakerManager_init_def)
next
  case (call m name' service_func w r m' w')
  then show ?case
    by (auto simp: call_service_def get_breaker_def check_circuit_def on_success_def on_failure_def
          store_def new_breaker_def Let_def
          split: option.splits sum.splits prod.splits outcome.splits if_splits)
next
  case (status m s)
  then show ?case by simp
next
  case (reset m name' known m')
  then show ?case
    by (auto simp: reset_breaker_def store_def split: option.splits if_splits)
qed

lemma circuit_open_error_names: "sublist name (str (circuit_open_error name))"
proof -
  have "str (circuit_open_error name)
          = ''Circuit breaker OPEN for '' @ name @ '' - service unavailable''"
    by (simp add: circuit_open_error_def)
  then show ?thesis unfolding sublist_def by blast
qed

lemma circuit_open_error_marker: "sublist ''Circuit breaker OPEN'' (str (circuit_open_error name))"
proof -
  have "str (circuit_open_error name)
          = [] @ ''Circuit breaker OPEN'' @ ('' for '' @ name @ '' - service unavailable'')"
    by (simp add: circuit_open_error_def)
  then show ?thesis unfolding sublist_def by blast
qed

lemma check_circuit_rejects:
  assumes "state b = OPEN" and "last_failure_time b = Some t"
    and "\<not> now w - t > real_of_int (timeout_seconds b)"
  shows "check_circuit b name w = Inl (circuit_open_error name)"
  using assms by (simp add: check_circuit_def should_attempt_reset_def)

lemma check_circuit_probes:
  assumes "state b = OPEN" and "last_failure_time b = Some t"
    and "now w - t > real_of_int (timeout_seconds b)"
  shows "check_circuit b name w = Inr (b\<lparr>state := HALF_OPEN\<rparr>)"
  using assms by (simp add: check_circuit_def should_attempt_reset_def)

lemma check_circuit_not_open: "check_circuit b name w = Inr b1 \<Longrightarrow> state b1 \<noteq> OPEN"
  by (auto simp: check_circuit_def split: if_splits)

lemma check_circuit_keeps:
  "check_circuit b name w = Inr b1 \<Longrightarrow>
     failure_count b1 = failure_count b \<and> failure_threshold b1 = failure_threshold b"
  by (auto simp: check_circuit_def split: if_splits)

lemma get_breaker_known: "breakers m name = Some b \<Longrightarrow> get_breaker m name = (b, m)"
  by (simp add: get_breaker_def)

text \<open>
  What \<open>call_with_mesh\<close> does with a failure of the call made through the breaker: it
  looks for \<open>''Circuit breaker OPEN''\<close> in the text. With it the failure is propagated and
  nothing more is invoked, without it \<open>retry_call\<close> decides; the registry stays as
  \<open>call_service\<close> left it.
\<close>

lemma call_with_mesh_on_failure:
  assumes "call_service (circuit_breaker g) name service_func w = (Inl e, m1, w1)"
  shows "(sublist ''Circuit breaker OPEN'' (str e) \<longrightarrow>
            call_with_mesh g name service_func rnd w
              = Some (Inl e, g\<lparr>circuit_breaker := m1\<rparr>, w1))
       \<and> (\<not> sublist ''Circuit breaker OPEN'' (str e) \<longrightarrow>
            call_with_mesh g name service_func rnd w
              = map_option (\<lambda>(r, w2). (r, g\<lparr>circuit_breaker := m1\<rparr>, w2))
                  (retry_call (retry_handler g) name service_func rnd w1))
       \<and> (\<forall>r g' w'. call_with_mesh g name service_func rnd w = Some (r, g', w')
             \<longrightarrow> circuit_breaker g' = m1)
       \<and> sublist ''Circuit breaker OPEN'' (str (circuit_open_error name))"
  using assms circuit_open_error_marker [of name]
  by (auto simp: call_with_mesh_def split: prod.splits option.splits)

lemma backoff_calls: "backoff h rnd attempt w = Some (Inr w') \<Longrightarrow> calls w' = calls w"
  by (auto simp: backoff_def uniform_def sleep_def Let_def split: if_splits)

lemma backoff_last: "max_attempts h \<le> attempt \<Longrightarrow> backoff h rnd attempt w = Some (Inr w)"
  by (simp add: backoff_def)

lemma backoff_sleeps:
  "attempt < max_attempts h \<Longrightarrow> attempt \<le> 1024 \<Longrightarrow>
   base_delay h * 2 ^ nat (attempt - 1) < 2 ^ 1024 \<Longrightarrow>
     backoff h rnd attempt w
       = Some (Inr (w\<lparr>now := now w + max 0 (base_delay h * 2 ^ nat (attempt - 1) + rnd (draws w) / 10),
                      slept := slept w @ [base_delay h * 2 ^ nat (attempt - 1) + rnd (draws w) / 10],
                      draws := Suc (draws w)\<rparr>))"
  by (simp add: backoff_def uniform_def sleep_def Let_def)

lemma backoff_overflows:
  "attempt < max_attempts h \<Longrightarrow> 1025 \<le> attempt \<Longrightarrow>
     backoff h rnd attempt w = Some (Inl overflow_error)"
  by (simp add: backoff_def)

lemma backoff_never_ends:
  "attempt < max_attempts h \<Longrightarrow> attempt \<le> 1024 \<Longrightarrow>
   2 ^ 1024 \<le> base_delay h * 2 ^ nat (attempt - 1) \<Longrightarrow> backoff h rnd attempt w = None"
  by (simp add: backoff_def uniform_def Let_def)

lemma retry_loop_raises:
  "attempt \<le> max_attempts h \<Longrightarrow> func (calls w) = (Raises e, d) \<Longrightarrow>
   backoff h rnd attempt (snd (invoke func w)) = Some (Inr w2) \<Longrightarrow>
     retry_loop h func rnd attempt last_exception w
       = retry_loop h func rnd (attempt + 1) (Some e) w2"
  by (subst retry_loop.simps) (simp add: invoke_def)

lemma retry_loop_leaves:
  "attempt \<le> max_attempts h \<Longrightarrow> func (calls w) = (Raises e, d) \<Longrightarrow>
   backoff h rnd attempt (snd (invoke func w)) = Some (Inl overflow) \<Longrightarrow>
     retry_loop h func rnd attempt last_exception w = Some (Inl overflow, snd (invoke func w))"
  by (subst retry_loop.simps) (simp add: invoke_def)

lemma retry_loop_returns:
  "attempt \<le> max_attempts h \<Longrightarrow> fst (func (calls w)) = Returns v \<Longrightarrow>
     retry_loop h func rnd attempt last_exception w = Some (Inr v, snd (invoke func w))"
  by (subst retry_loop.simps) (simp add: invoke_def)

lemma retry_loop_done:
  "max_attempts h < attempt \<Longrightarrow>
     retry_loop h func rnd attempt last_exception w = Some (Inl (raise_last last_exception), w)"
  by (subst retry_loop.simps) simp

text \<open>
  A backend that always raises, with at most 1025 attempts allowed and all the delays
  finite: every attempt is made and the failure of the last one is raised.
\<close>

lemma retry_loop_all_fail:
  assumes fails: "\<forall>i. \<exists>e d. func i = (Raises e, d)" and small: "max_attempts h \<le> 1025"
    and base: "\<forall>a<max_attempts h. base_delay h * 2 ^ nat (a - 1) < 2 ^ 1024"
  shows "attempt \<le> max_attempts h \<Longrightarrow> nat (max_attempts h - attempt) = n \<Longrightarrow>
           \<exists>e d w'. func (calls w + n) = (Raises e, d)
              \<and> retry_loop h func rnd attempt last_exception w = Some (Inl e, w')
              \<and> calls w' = calls w + n + 1"
proof (induction n arbitrary: attempt last_exception w)
  case 0
  from fails obtain e d where f: "func (calls w) = (Raises e, d)" by blast
  from 0 have a: "attempt = max_attempts h" by simp
  let ?w1 = "snd (invoke func w)"
  have b: "backoff h rnd attempt ?w1 = Some (Inr ?w1)" using a by (simp add: backoff_last)
  have "retry_loop h func rnd attempt last_exception w
          = retry_loop h func rnd (attempt + 1) (Some e) ?w1"
    using a by (intro retry_loop_raises [OF _ f b]) simp
  also have "\<dots> = Some (Inl e, ?w1)"
    using a by (simp add: retry_loop_done raise_last_def)
  finally have "retry_loop h func rnd attempt last_exception w = Some (Inl e, ?w1)" .
  moreover have "calls ?w1 = calls w + 0 + 1" by (simp add: invoke_def)
  ultimately show ?case using f by auto
next
  case (Suc n)
  from fails obtain e d where f: "func (calls w) = (Raises e, d)" by blast
  from Suc.prems have a: "attempt + 1 \<le> max_attempts h"
    and n: "nat (max_attempts h - (attempt + 1)) = n" by auto
  from a small have lt: "attempt < max_attempts h" and le: "attempt \<le> 1024" by simp_all
  obtain w1 where b: "backoff h rnd attempt (snd (invoke func w)) = Some (Inr w1)"
    using backoff_sleeps [OF lt le] base lt by blast
  have c1: "calls w1 = calls w + 1"
    using backoff_calls [OF b] by (simp add: invoke_def)
  from Suc.IH [OF a n, of w1 "Some e"] obtain e' d' w' where
    r: "func (calls w1 + n) = (Raises e', d')"
       "retry_loop h func rnd (attempt + 1) (Some e) w1 = Some (Inl e', w')"
       "calls w' = calls w1 + n + 1"
    by blast
  have "retry_loop h func rnd attempt last_exception w
          = retry_loop h func rnd (attempt + 1) (Some e) w1"
    using lt by (intro retry_loop_raises [OF _ f b]) simp
  with r c1 show ?case by auto
qed

lemma retry_call_exhausts_small:
  assumes "\<forall>i. \<exists>e d. func i = (Raises e, d)"
    and "max_attempts h \<ge> 1" and "max_attempts h \<le> 1025"
    and "\<forall>a<max_attempts h. base_delay h * 2 ^ nat (a - 1) < 2 ^ 1024"
  shows "\<exists>e d w'. func (calls w + nat (max_attempts h) - 1) = (Raises e, d)
           \<and> retry_call h name func rnd w = Some (Inl e, w')
           \<and> calls w' = calls w + nat (max_attempts h)"
proof -
  define n where "n = nat (max_attempts h - 1)"
  have N: "nat (max_attempts h) = Suc n"
    unfolding n_def using assms(2) by arith
  from n_def have "nat (max_attempts h - 1) = n" by simp
  from retry_loop_all_fail [OF assms(1) assms(3) assms(4) assms(2) this, of w rnd None]
  obtain e d w' where
    "func (calls w + n) = (Raises e, d)"
    "retry_loop h func rnd 1 None w = Some (Inl e, w')"
    "calls w' = calls w + n + 1"
    by blast
  then have "func (calls w + nat (max_attempts h) - 1) = (Raises e, d)
      \<and> retry_call h name func rnd w = Some (Inl e, w')
      \<and> calls w' = calls w + nat (max_attempts h)"
    by (simp add: N retry_call_def)
  then show ?thesis by blast
qed

text \<open>
  A backend that always raises, with 1026 attempts or more allowed and the delays of
  the first 1024 attempts finite: after the failure of attempt 1025 the delay cannot be
  worked out, and \<open>OverflowError\<close> is raised.
\<close>

lemma retry_loop_overflows:
  assumes fails: "\<forall>i. \<exists>e d. func i = (Raises e, d)" and large: "1026 \<le> max_attempts h"
    and base: "\<forall>a<max_attempts h. base_delay h * 2 ^ nat (a - 1) < 2 ^ 1024"
  shows "attempt \<le> 1025 \<Longrightarrow> nat (1025 - attempt) = n \<Longrightarrow>
           \<exists>w'. retry_loop h func rnd attempt last_exception w = Some (Inl overflow_error, w')
              \<and> calls w' = calls w + n + 1"
proof (induction n arbitrary: attempt last_exception w)
  case 0
  from fails obtain e d where f: "func (calls w) = (Raises e, d)" by blast
  from 0 have a: "attempt = 1025" by simp
  let ?w1 = "snd (invoke func w)"
  have b: "backoff h rnd attempt ?w1 = Some (Inl overflow_error)"
    using a large by (simp add: backoff_overflows)
  have "retry_loop h func rnd attempt last_exception w = Some (Inl overflow_error, ?w1)"
    using a large by (intro retry_loop_leaves [OF _ f b]) simp
  moreover have "calls ?w1 = calls w + 0 + 1" by (simp add: invoke_def)
  ultimately show ?case by auto
next
  case (Suc n)
  from fails obtain e d where f: "func (calls w) = (Raises e, d)" by blast
  from Suc.prems have a: "attempt + 1 \<le> 1025"
    and n: "nat (1025 - (attempt + 1)) = n" by auto
  from a large have lt: "attempt < max_attempts h" and le: "attempt \<le> 1024" by simp_all
  obtain w1 where b: "backoff h rnd attempt (snd (invoke func w)) = Some (Inr w1)"
    using backoff_sleeps [OF lt le] base lt by blast
  have c1: "calls w1 = calls w + 1"
    using backoff_calls [OF b] by (simp add: invoke_def)
  from Suc.IH [OF a n, of "Some e" w1] obtain w' where
    r: "retry_loop h func rnd (attempt + 1) (Some e) w1 = Some (Inl overflow_error, w')"
       "calls w' = calls w1 + n + 1"
    by blast
  have "retry_loop h func rnd attempt last_exception w
          = retry_loop h func rnd (attempt + 1) (Some e) w1"
    using lt by (intro retry_loop_raises [OF _ f b]) simp
  with r c1 show ?case by auto
qed

text \<open>
  A backend that raises \<open>k\<close> times and then returns, the attempts up to that one being
  allowed and the delays before it finite; no invocation takes negative time. The
  clock moves on by at least what was slept.
\<close>

lemma retry_loop_first_success:
  assumes dur: "\<forall>i. 0 \<le> snd (func i)"
  shows "(\<forall>i<k. \<exists>e d. func (calls w + i) = (Raises e, d)) \<Longrightarrow>
   fst (func (calls w + k)) = Returns v \<Longrightarrow> attempt + int k \<le> max_attempts h \<Longrightarrow>
   attempt + int k \<le> 1025 \<Longrightarrow>
   (\<forall>i<k. base_delay h * 2 ^ nat (attempt + int i - 1) < 2 ^ 1024) \<Longrightarrow>
     \<exists>w'. retry_loop h func rnd attempt last_exception w = Some (Inr v, w')
        \<and> calls w' = calls w + k + 1
        \<and> draws w' = draws w + k
        \<and> slept w' = slept w @
             map (\<lambda>i. base_delay h * 2 ^ nat (attempt + int i - 1) + rnd (draws w + i) / 10) [0..<k]
        \<and> now w' - now w \<ge> sum_list (slept w') - sum_list (slept w)"
proof (induction k arbitrary: attempt last_exception w)
  case 0
  have "0 \<le> snd (func (calls w))" using dur by blast
  with 0 show ?case by (simp add: retry_loop_returns invoke_def)
next
  case (Suc k)
  from Suc.prems(1) obtain e d where f: "func (calls w) = (Raises e, d)" by force
  from Suc.prems(3) have lt: "attempt < max_attempts h" by simp
  from Suc.prems(4) have le: "attempt \<le> 1024" by simp
  from Suc.prems(5) have fin: "base_delay h * 2 ^ nat (attempt - 1) < 2 ^ 1024" by force
  let ?x = "base_delay h * 2 ^ nat (attempt - 1) + rnd (draws w) / 10"
  let ?w0 = "snd (invoke func w)"
  let ?w1 = "?w0\<lparr>now := now ?w0 + max 0 ?x, slept := slept ?w0 @ [?x], draws := Suc (draws ?w0)\<rparr>"
  have b: "backoff h rnd attempt ?w0 = Some (Inr ?w1)"
    using backoff_sleeps [OF lt le fin, of rnd ?w0] by (simp add: invoke_def)
  have c1: "calls ?w1 = Suc (calls w)" and d1: "draws ?w1 = Suc (draws w)"
    and s1: "slept ?w1 = slept w @ [?x]"
    and n1: "now ?w1 = now w + snd (func (calls w)) + max 0 ?x"
    by (simp_all add: invoke_def)
  have p1: "\<forall>i<k. \<exists>e d. func (calls ?w1 + i) = (Raises e, d)"
    using Suc.prems(1) c1 by (metis Suc_less_eq add_Suc_shift)
  have p2: "fst (func (calls ?w1 + k)) = Returns v"
    using Suc.prems(2) c1 by simp
  have p3: "(attempt + 1) + int k \<le> max_attempts h" using Suc.prems(3) by simp
  have p4: "(attempt + 1) + int k \<le> 1025" using Suc.prems(4) by simp
  have p5: "\<forall>i<k. base_delay h * 2 ^ nat ((attempt + 1) + int i - 1) < 2 ^ 1024"
  proof (intro allI impI)
    fix i assume "i < k"
    then have "Suc i < Suc k" by simp
    with Suc.prems(5) have "base_delay h * 2 ^ nat (attempt + int (Suc i) - 1) < 2 ^ 1024"
      by blast
    moreover have "attempt + int (Suc i) - 1 = (attempt + 1) + int i - 1" by simp
    ultimately show "base_delay h * 2 ^ nat ((attempt + 1) + int i - 1) < 2 ^ 1024" by simp
  qed
  from Suc.IH [OF p1 p2 p3 p4 p5, of "Some e"] obtain w' where
    r: "retry_loop h func rnd (attempt + 1) (Some e) ?w1 = Some (Inr v, w')"
       "calls w' = calls ?w1 + k + 1" "draws w' = draws ?w1 + k"
       "slept w' = slept ?w1 @
          map (\<lambda>i. base_delay h * 2 ^ nat (attempt + 1 + int i - 1) + rnd (draws ?w1 + i) / 10) [0..<k]"
       "now w' - now ?w1 \<ge> sum_list (slept w') - sum_list (slept ?w1)"
    by blast
  have m: "map (\<lambda>i. base_delay h * 2 ^ nat (attempt + int i - 1) + rnd (draws w + i) / 10) [0..<Suc k]
             = ?x # map (\<lambda>i. base_delay h * 2 ^ nat (attempt + 1 + int i - 1) + rnd (Suc (draws w) + i) / 10) [0..<k]"
    by (simp add: map_upt_Suc add.commute add.left_commute del: upt_Suc)
  have e1: "retry_loop h func rnd attempt last_exception w
          = retry_loop h func rnd (attempt + 1) (Some e) ?w1"
    using lt by (intro retry_loop_raises [OF _ f b]) simp
  have "0 \<le> snd (func (calls w))" using dur by blast
  then have t1: "now ?w1 - now w \<ge> sum_list (slept ?w1) - sum_list (slept w)"
    unfolding n1 s1 by simp
  from r(5) t1 have t: "now w' - now w \<ge> sum_list (slept w') - sum_list (slept w)" by linarith
  have sl: "slept w' = slept w @
      map (\<lambda>i. base_delay h * 2 ^ nat (attempt + int i - 1) + rnd (draws w + i) / 10) [0..<Suc k]"
    unfolding m using r(4) by (simp only: s1 d1 append_assoc append_Cons append_Nil)
  from e1 r(1) r(2) r(3) c1 d1 sl t show ?case by simp
qed

section \<open>The claims\<close>

text \<open>
  C1. A service whose breaker is \<open>OPEN\<close> and whose timeout has not elapsed since
  \<open>last_failure_time\<close>: \<open>call_service\<close> raises the circuit-open error, whose text names
  the service. The backend is not invoked (the environment, with its count of
  invocations, is returned as it was) and the registry, so the breaker's \<open>state\<close>,
  \<open>failure_count\<close> and \<open>last_failure_time\<close>, is unchanged.
\<close>

theorem call_service_open_fails_fast:
  assumes "breakers m name = Some b" and "state b = OPEN"
    and "last_failure_time b = Some t"
    and "\<not> now w - t > real_of_int (timeout_seconds b)"
  shows "call_service m name service_func w = (Inl (circuit_open_error name), m, w)
         \<and> sublist name (str (circuit_open_error name))"
  using assms
  by (simp add: call_service_def get_breaker_known check_circuit_rejects circuit_open_error_names)

theorem call_service_open_fails_fast_witness:
  "breakers tripped ''catalog'' = Some open_catalog \<and> state open_catalog = OPEN
   \<and> last_failure_time open_catalog = Some 1003
   \<and> \<not> now (w0\<lparr>now := 1010\<rparr>) - 1003 > real_of_int (timeout_seconds open_catalog)
   \<and> call_service tripped ''catalog'' healthy (w0\<lparr>now := 1010\<rparr>)
       = (Inl (circuit_open_error ''catalog''), tripped, w0\<lparr>now := 1010\<rparr>)
   \<and> sublist ''catalog'' (str (circuit_open_error ''catalog''))"
proof -
  have h1: "breakers tripped ''catalog'' = Some open_catalog" by (simp add: tripped_def)
  have h2: "state open_catalog = OPEN" by (simp add: open_catalog_def)
  have h3: "last_failure_time open_catalog = Some 1003" by (simp add: open_catalog_def)
  have h4: "\<not> now (w0\<lparr>now := 1010\<rparr>) - 1003 > real_of_int (timeout_seconds open_catalog)"
    by (simp add: open_catalog_def)
  from call_service_open_fails_fast [OF h1 h2 h3 h4, of healthy] h1 h2 h3 h4
  show ?thesis by blast
qed

text \<open>
  C2 does not hold of the code. \<open>call_with_mesh\<close> tells the failure of an open breaker
  from a failure of the backend by looking for \<open>''Circuit breaker OPEN''\<close> in the text,
  so a failure of the backend itself is not retried when its text happens to contain
  those words. Here the breaker of \<open>''catalog''\<close> is closed and lets the call through, the
  backend is invoked once and raises; \<open>call_with_mesh\<close> propagates that failure after
  the one invocation, although \<open>retry_call\<close> would have returned \<open>''ok''\<close>.
\<close>

theorem call_with_mesh_relayed_open_not_retried:
  "call_service CircuitBreakerManager_init ''catalog'' relay w0
     = (Inl (Exn ''Exception'' ''Circuit breaker OPEN for inventory - service unavailable''),
        store CircuitBreakerManager_init ''catalog''
          ((new_breaker CircuitBreakerManager_init ''catalog'')
             \<lparr>failure_count := 1, last_failure_time := Some 1001\<rparr>),
        w0\<lparr>now := 1001, calls := 1\<rparr>)
   \<and> Exn ''Exception'' ''Circuit breaker OPEN for inventory - service unavailable''
       \<noteq> circuit_open_error ''catalog''
   \<and> retry_call (retry_handler ServiceMeshGateway_init) ''catalog'' relay half
         (w0\<lparr>now := 1001, calls := 1\<rparr>)
       = Some (Inr ''ok'', w0\<lparr>now := 1002, calls := 2\<rparr>)
   \<and> call_with_mesh ServiceMeshGateway_init ''catalog'' relay half w0
       = Some (Inl (Exn ''Exception'' ''Circuit breaker OPEN for inventory - service unavailable''),
               ServiceMeshGateway_init\<lparr>circuit_breaker :=
                 store CircuitBreakerManager_init ''catalog''
                   ((new_breaker CircuitBreakerManager_init ''catalog'')
                      \<lparr>failure_count := 1, last_failure_time := Some 1001\<rparr>)\<rparr>,
               w0\<lparr>now := 1001, calls := 1\<rparr>)"
proof -
  let ?e = "Exn ''Exception'' ''Circuit breaker OPEN for inventory - service unavailable''"
  have m: "sublist ''Circuit breaker OPEN'' ''Circuit breaker OPEN for inventory - service unavailable''"
    by code_simp
  have c: "call_service CircuitBreakerManager_init ''catalog'' relay w0
             = (Inl ?e,
                store CircuitBreakerManager_init ''catalog''
                  ((new_breaker CircuitBreakerManager_init ''catalog'')
                     \<lparr>failure_count := 1, last_failure_time := Some 1001\<rparr>),
                w0\<lparr>now := 1001, calls := 1\<rparr>)"
    by (simp add: model_defs CircuitBreakerManager_init_def relay_def w0_def Let_def)
  have n: "?e \<noteq> circuit_open_error ''catalog''"
    by (simp add: circuit_open_error_def)
  have r: "retry_call (retry_handler ServiceMeshGateway_init) ''catalog'' relay half
             (w0\<lparr>now := 1001, calls := 1\<rparr>)
           = Some (Inr ''ok'', w0\<lparr>now := 1002, calls := 2\<rparr>)"
    by (simp add: retry_call_def retry_loop.simps invoke_def ServiceMeshGateway_init_def
          relay_def w0_def)
  have g: "call_with_mesh ServiceMeshGateway_init ''catalog'' relay half w0
             = Some (Inl ?e,
                ServiceMeshGateway_init\<lparr>circuit_breaker :=
                  store CircuitBreakerManager_init ''catalog''
                    ((new_breaker CircuitBreakerManager_init ''catalog'')
                       \<lparr>failure_count := 1, last_failure_time := Some 1001\<rparr>)\<rparr>,
                w0\<lparr>now := 1001, calls := 1\<rparr>)"
    using c m by (simp add: call_with_mesh_def ServiceMeshGateway_init_def)
  from c n r g show ?thesis by blast
qed

text \<open>
  C3. A breaker of a reachable registry that is \<open>OPEN\<close> and whose timeout has elapsed
  since \<open>last_failure_time\<close>: the check before the attempt puts it in \<open>HALF_OPEN\<close>, and
  \<open>call_service\<close> invokes the backend exactly once. When that invocation returns, the
  breaker ends \<open>CLOSED\<close> with \<open>failure_count = 0\<close>; when it raises, the breaker ends
  \<open>OPEN\<close> again.
\<close>

theorem open_breaker_probe:
  assumes "reachable m" and "breakers m name = Some b" and "state b = OPEN"
    and "last_failure_time b = Some t"
    and "now w - t > real_of_int (timeout_seconds b)"
  shows "check_circuit b name w = Inr (b\<lparr>state := HALF_OPEN\<rparr>)
    \<and> (\<forall>v. fst (service_func (calls w)) = Returns v \<longrightarrow>
          (\<exists>m' w' b'. call_service m name service_func w = (Inr v, m', w')
             \<and> calls w' = Suc (calls w) \<and> breakers m' name = Some b'
             \<and> state b' = CLOSED \<and> failure_count b' = 0))
    \<and> (\<forall>e. fst (service_func (calls w)) = Raises e \<longrightarrow>
          (\<exists>m' w' b'. call_service m name service_func w = (Inl e, m', w')
             \<and> calls w' = Suc (calls w) \<and> breakers m' name = Some b'
             \<and> state b' = OPEN))"
proof -
  have g: "check_circuit b name w = Inr (b\<lparr>state := HALF_OPEN\<rparr>)"
    using assms(3-5) by (rule check_circuit_probes)
  have thr: "failure_threshold b \<le> failure_count b"
    using reachable_open [OF assms(1-3)] by simp
  have ok: "\<exists>m' w' b'. call_service m name service_func w = (Inr v, m', w')
             \<and> calls w' = Suc (calls w) \<and> breakers m' name = Some b'
             \<and> state b' = CLOSED \<and> failure_count b' = 0"
    if "fst (service_func (calls w)) = Returns v" for v
    using that assms(2) g
    by (simp add: call_service_def get_breaker_known invoke_def on_success_def store_def)
  have bad: "\<exists>m' w' b'. call_service m name service_func w = (Inl e, m', w')
             \<and> calls w' = Suc (calls w) \<and> breakers m' name = Some b'
             \<and> state b' = OPEN"
    if "fst (service_func (calls w)) = Raises e" for e
    using that assms(2) g thr
    by (simp add: call_service_def get_breaker_known invoke_def on_failure_def store_def Let_def)
  from g ok bad show ?thesis by blast
qed

theorem open_breaker_probe_witness:
  "reachable tripped \<and> breakers tripped ''catalog'' = Some open_catalog
   \<and> state open_catalog = OPEN \<and> last_failure_time open_catalog = Some 1003
   \<and> now (w0\<lparr>now := 1040\<rparr>) - 1003 > real_of_int (timeout_seconds open_catalog)
   \<and> check_circuit open_catalog ''catalog'' (w0\<lparr>now := 1040\<rparr>) = Inr (open_catalog\<lparr>state := HALF_OPEN\<rparr>)
   \<and> (\<exists>m' w' b'. call_service tripped ''catalog'' healthy (w0\<lparr>now := 1040\<rparr>) = (Inr ''ok'', m', w')
          \<and> calls w' = Suc (calls (w0\<lparr>now := 1040\<rparr>)) \<and> breakers m' ''catalog'' = Some b'
          \<and> state b' = CLOSED \<and> failure_count b' = 0)
   \<and> (\<exists>m' w' b'. call_service tripped ''catalog'' (db_down :: string service_func) (w0\<lparr>now := 1040\<rparr>)
            = (Inl (Exn ''Exception'' ''Database connection failed''), m', w')
          \<and> calls w' = Suc (calls (w0\<lparr>now := 1040\<rparr>)) \<and> breakers m' ''catalog'' = Some b'
          \<and> state b' = OPEN)"
proof -
  let ?w = "w0\<lparr>now := 1040\<rparr>"
  have h2: "breakers tripped ''catalog'' = Some open_catalog" by (simp add: tripped_def)
  have h3: "state open_catalog = OPEN" by (simp add: open_catalog_def)
  have h4: "last_failure_time open_catalog = Some 1003" by (simp add: open_catalog_def)
  have h5: "now ?w - 1003 > real_of_int (timeout_seconds open_catalog)"
    by (simp add: open_catalog_def)
  have r1: "fst (healthy (calls ?w)) = Returns ''ok''" by (simp add: healthy_def)
  have r2: "fst ((db_down :: string service_func) (calls ?w))
              = Raises (Exn ''Exception'' ''Database connection failed'')"
    by (simp add: db_down_def)
  from open_breaker_probe [OF tripped_reachable h2 h3 h4 h5, of healthy] r1
       open_breaker_probe [OF tripped_reachable h2 h3 h4 h5, of db_down] r2
       tripped_reachable h2 h3 h4 h5
  show ?thesis by blast
qed

text \<open>
  C4 does not hold of the code: \<open>retry_call\<close> never calls \<open>should_retry\<close>. The failure
  \<open>''Product 999 not found''\<close> is one \<open>should_retry\<close> says not to retry, and still
  \<open>retry_call\<close> with three attempts invokes the backend three times and sleeps twice
  before it raises.
\<close>

theorem retry_call_retries_not_found:
  "should_retry (Exn ''Exception'' ''Product 999 not found'') = False
   \<and> retry_call \<lparr>max_attempts = 3, base_delay = 1\<rparr> ''catalog'' (not_found :: string service_func) half w0
       = Some (Inl (Exn ''Exception'' ''Product 999 not found''),
               \<lparr>now = 1000 + 1 + 1.05 + 1 + 2.05 + 1, calls = 3, slept = [1.05, 2.05], draws = 2\<rparr>)"
proof -
  have a: "should_retry (Exn ''Exception'' ''Product 999 not found'') = False"
    by code_simp
  have b: "retry_call \<lparr>max_attempts = 3, base_delay = 1\<rparr> ''catalog'' (not_found :: string service_func) half w0
       = Some (Inl (Exn ''Exception'' ''Product 999 not found''),
               \<lparr>now = 1000 + 1 + 1.05 + 1 + 2.05 + 1, calls = 3, slept = [1.05, 2.05], draws = 2\<rparr>)"
    by (simp add: retry_call_def retry_loop.simps invoke_def backoff_def uniform_def sleep_def
          raise_last_def not_found_def half_def w0_def Let_def)
  from a b show ?thesis by blast
qed

text \<open>
  C5. In every registry reachable from the empty one by \<open>call_service\<close>, \<open>get_status\<close>
  and \<open>reset_breaker\<close>, a breaker that is \<open>OPEN\<close> has
  \<open>failure_count \<ge> failure_threshold\<close>.
\<close>

theorem open_implies_threshold_reached:
  assumes "reachable m" and "breakers m name = Some b" and "state b = OPEN"
  shows "failure_count b \<ge> failure_threshold b"
  using reachable_open [OF assms] by simp

theorem open_implies_threshold_reached_witness:
  "reachable tripped \<and> breakers tripped ''catalog'' = Some open_catalog
   \<and> state open_catalog = OPEN \<and> failure_count open_catalog \<ge> failure_threshold open_catalog"
proof -
  have h2: "breakers tripped ''catalog'' = Some open_catalog" by (simp add: tripped_def)
  have h3: "state open_catalog = OPEN" by (simp add: open_catalog_def)
  from open_implies_threshold_reached [OF tripped_reachable h2 h3] tripped_reachable h2 h3
  show ?thesis by blast
qed

text \<open>
  C6, as the code has it. When \<open>call_service\<close> gets past the check and the backend
  raises, the breaker's \<open>failure_count\<close> is one more than before, \<open>last_failure_time\<close>
  is the time after the invocation, the breaker is \<open>OPEN\<close> afterwards exactly when
  the new count has reached \<open>failure_threshold\<close>, and the failure raised to the caller
  is the backend's own, unchanged.
\<close>

theorem call_service_failure_bookkeeping:
  assumes "get_breaker m name = (b, m1)" and "check_circuit b name w = Inr b1"
    and "invoke service_func w = (Raises e, w1)"
  shows "\<exists>m' b'. call_service m name service_func w = (Inl e, m', w1)
           \<and> breakers m' name = Some b'
           \<and> failure_count b' = failure_count b + 1
           \<and> last_failure_time b' = Some (now w1)
           \<and> (state b' = OPEN \<longleftrightarrow> failure_count b + 1 \<ge> failure_threshold b)"
  using assms check_circuit_not_open [OF assms(2)] check_circuit_keeps [OF assms(2)]
  by (simp add: call_service_def on_failure_def store_def Let_def)

theorem call_service_failure_bookkeeping_witness:
  "get_breaker CircuitBreakerManager_init ''catalog''
     = (new_breaker CircuitBreakerManager_init ''catalog'',
        store CircuitBreakerManager_init ''catalog'' (new_breaker CircuitBreakerManager_init ''catalog''))
   \<and> check_circuit (new_breaker CircuitBreakerManager_init ''catalog'') ''catalog'' w0
       = Inr (new_breaker CircuitBreakerManager_init ''catalog'')
   \<and> invoke (db_down :: string service_func) w0
       = (Raises (Exn ''Exception'' ''Database connection failed''), w0\<lparr>now := 1001, calls := 1\<rparr>)
   \<and> (\<exists>m' b'. call_service CircuitBreakerManager_init ''catalog'' (db_down :: string service_func) w0
                 = (Inl (Exn ''Exception'' ''Database connection failed''), m', w0\<lparr>now := 1001, calls := 1\<rparr>)
           \<and> breakers m' ''catalog'' = Some b'
           \<and> failure_count b' = 1
           \<and> last_failure_time b' = Some 1001
           \<and> state b' \<noteq> OPEN)"
proof -
  let ?b = "new_breaker CircuitBreakerManager_init ''catalog''"
  have h1: "get_breaker CircuitBreakerManager_init ''catalog''
              = (?b, store CircuitBreakerManager_init ''catalog'' ?b)"
    by (simp add: get_breaker_def store_def CircuitBreakerManager_init_def)
  have h2: "check_circuit ?b ''catalog'' w0 = Inr ?b"
    by (simp add: check_circuit_def new_breaker_def)
  have h3: "invoke (db_down :: string service_func) w0
              = (Raises (Exn ''Exception'' ''Database connection failed''), w0\<lparr>now := 1001, calls := 1\<rparr>)"
    by (simp add: invoke_def db_down_def w0_def)
  have v: "failure_count ?b = 0" "failure_threshold ?b = 3" "now (w0\<lparr>now := 1001, calls := 1\<rparr>) = 1001"
    by (simp_all add: new_breaker_def CircuitBreakerManager_init_def)
  from call_service_failure_bookkeeping [OF h1 h2 h3] v h1 h2 h3
  show ?thesis by auto
qed

text \<open>
  C6 as stated fails in its last part: the failure that reaches the caller carries no
  service name. The backend of \<open>''catalog''\<close> is invoked once and raises
  \<open>''Database connection failed''\<close>; that very failure is what \<open>call_service\<close> raises.
\<close>

theorem call_service_failure_not_tagged:
  "fst (call_service CircuitBreakerManager_init ''catalog'' (db_down :: string service_func) w0)
     = Inl (Exn ''Exception'' ''Database connection failed'')
   \<and> calls (snd (snd (call_service CircuitBreakerManager_init ''catalog''
                        (db_down :: string service_func) w0))) = 1
   \<and> \<not> sublist ''catalog'' (str (Exn ''Exception'' ''Database connection failed''))"
proof -
  have "\<not> sublist ''catalog'' ''Database connection failed''" by code_simp
  then show ?thesis
    by (simp add: model_defs CircuitBreakerManager_init_def db_down_def w0_def Let_def)
qed

text \<open>
  C7. \<open>reset_breaker\<close> on a known service returns \<open>True\<close> and leaves that breaker
  \<open>CLOSED\<close> with \<open>failure_count = 0\<close> and no \<open>last_failure_time\<close>, whatever it was
  before, and leaves the other services as they were; on an unknown service it returns
  \<open>False\<close> and the registry is unchanged, so no breaker is created or altered.
\<close>

theorem reset_breaker_known_unknown:
  "(breakers m name = Some b \<longrightarrow>
      (\<exists>m' b'. reset_breaker m name = (True, m') \<and> breakers m' name = Some b'
         \<and> state b' = CLOSED \<and> failure_count b' = 0 \<and> last_failure_time b' = None
         \<and> (\<forall>n. n \<noteq> name \<longrightarrow> breakers m' n = breakers m n)))
   \<and> (breakers m name = None \<longrightarrow> reset_breaker m name = (False, m))"
  by (simp add: reset_breaker_def store_def)

theorem reset_breaker_known_unknown_witness:
  "breakers tripped ''catalog'' = Some open_catalog
   \<and> (\<exists>m' b'. reset_breaker tripped ''catalog'' = (True, m') \<and> breakers m' ''catalog'' = Some b'
         \<and> state b' = CLOSED \<and> failure_count b' = 0 \<and> last_failure_time b' = None
         \<and> (\<forall>n. n \<noteq> ''catalog'' \<longrightarrow> breakers m' n = breakers tripped n))
   \<and> breakers tripped ''cart'' = None
   \<and> reset_breaker tripped ''cart'' = (False, tripped)"
proof -
  have h1: "breakers tripped ''catalog'' = Some open_catalog" by (simp add: tripped_def)
  have h2: "breakers tripped ''cart'' = None" by (simp add: tripped_def)
  from reset_breaker_known_unknown [of tripped "''catalog''" open_catalog]
       reset_breaker_known_unknown [of tripped "''cart''" open_catalog] h1 h2
  show ?thesis by blast
qed

text \<open>
  C8 does not hold of the code for \<open>max_attempts \<ge> 1026\<close>. With a backend that raises on
  every invocation, \<open>max_attempts = 1026\<close> and \<open>base_delay = 0\<close>, the delay after the
  failure of attempt 1025 is \<^verbatim>\<open>0.0 * (2 ** 1024)\<close>, which raises \<open>OverflowError\<close>:
  \<open>retry_call\<close> makes 1025 invocations, not 1026, and what it raises is not the failure
  of the backend.
\<close>

theorem retry_call_overflows_before_last_attempt:
  "(\<exists>w'. retry_call \<lparr>max_attempts = 1026, base_delay = 0\<rparr> ''catalog''
            (db_down :: string service_func) half w0
          = Some (Inl (Exn ''OverflowError'' ''int too large to convert to float''), w')
        \<and> calls w' = 1025)
   \<and> fst ((db_down :: string service_func) 1025)
       = Raises (Exn ''Exception'' ''Database connection failed'')"
proof -
  let ?h = "\<lparr>max_attempts = 1026, base_delay = 0\<rparr>"
  have fails: "\<forall>i. \<exists>e d. (db_down :: string service_func) i = (Raises e, d)"
    by (simp add: db_down_def)
  have large: "1026 \<le> max_attempts ?h" by simp
  have base: "\<forall>a<max_attempts ?h. base_delay ?h * 2 ^ nat (a - 1) < 2 ^ 1024" by simp
  have n: "nat (1025 - 1) = 1024" by simp
  from retry_loop_overflows [OF fails large base _ n, of half None w0]
  obtain w' where
    "retry_loop ?h (db_down :: string service_func) half 1 None w0 = Some (Inl overflow_error, w')"
    "calls w' = calls w0 + 1024 + 1"
    by auto
  then have "retry_call ?h ''catalog'' (db_down :: string service_func) half w0
               = Some (Inl (Exn ''OverflowError'' ''int too large to convert to float''), w')
             \<and> calls w' = 1025"
    by (simp add: retry_call_def overflow_error_def w0_def)
  then show ?thesis by (auto simp: db_down_def)
qed

text \<open>
  C9. The draws of \<^verbatim>\<open>random()\<close> are not negative and no invocation takes negative time.
  With \<open>max_attempts = 3\<close>, a backend that raises on its first two invocations and
  returns on the third, and \<open>2 * base_delay\<close> a finite float, \<open>retry_call\<close> returns: it
  makes exactly three invocations and gives the third one's result; it sleeps twice,
  \<open>base_delay\<close> and \<open>2 * base_delay\<close> plus the jitter of each, so for at least
  \<open>base_delay + 2 * base_delay\<close> in all, and the clock has moved on by at least that much
  when it returns. In general an attempt that succeeds ends the loop at once, with that
  one invocation, no sleep and its result; and a backend that raises \<open>k\<close> times and
  then returns, the attempt \<open>k + 1\<close> being one the loop comes to (\<open>k < max_attempts\<close>,
  \<open>k \<le> 1024\<close> and the delays before it finite floats), has \<open>retry_call\<close> return that
  result after exactly \<open>k + 1\<close> invocations.
\<close>

theorem retry_call_first_success:
  assumes "\<forall>i. 0 \<le> rnd i" and "\<forall>i. 0 \<le> snd (func i)"
  shows "(max_attempts h = 3 \<and> 2 * base_delay h < 2 ^ 1024
            \<and> (\<exists>e d. func (calls w) = (Raises e, d))
            \<and> (\<exists>e d. func (calls w + 1) = (Raises e, d))
            \<and> fst (func (calls w + 2)) = Returns v
          \<longrightarrow> (\<exists>w'. retry_call h name func rnd w = Some (Inr v, w')
                 \<and> calls w' = calls w + 3
                 \<and> slept w' = slept w @ [base_delay h + rnd (draws w) / 10,
                                          2 * base_delay h + rnd (draws w + 1) / 10]
                 \<and> sum_list (slept w') - sum_list (slept w) \<ge> base_delay h + 2 * base_delay h
                 \<and> now w' - now w \<ge> base_delay h + 2 * base_delay h))
       \<and> (attempt \<le> max_attempts h \<and> fst (func (calls w)) = Returns v
          \<longrightarrow> retry_loop h func rnd attempt last_exception w
                = Some (Inr v, w\<lparr>now := now w + snd (func (calls w)), calls := Suc (calls w)\<rparr>))
       \<and> (int k < max_attempts h \<and> k \<le> 1024
            \<and> (\<forall>i<k. base_delay h * 2 ^ i < 2 ^ 1024)
            \<and> (\<forall>i<k. \<exists>e d. func (calls w + i) = (Raises e, d))
            \<and> fst (func (calls w + k)) = Returns v
          \<longrightarrow> (\<exists>w'. retry_call h name func rnd w = Some (Inr v, w') \<and> calls w' = calls w + k + 1
                 \<and> now w' - now w \<ge> sum_list (slept w') - sum_list (slept w)))"
proof -
  have general: "\<exists>w'. retry_call h name func rnd w = Some (Inr v, w') \<and> calls w' = calls w + k + 1
                   \<and> now w' - now w \<ge> sum_list (slept w') - sum_list (slept w)"
    if "int k < max_attempts h" and "k \<le> 1024"
      and "\<forall>i<k. base_delay h * 2 ^ i < 2 ^ 1024"
      and "\<forall>i<k. \<exists>e d. func (calls w + i) = (Raises e, d)"
      and "fst (func (calls w + k)) = Returns v" for k
  proof -
    from that(1) have a: "1 + int k \<le> max_attempts h" by simp
    from that(2) have b: "1 + int k \<le> 1025" by simp
    from that(3) have c: "\<forall>i<k. base_delay h * 2 ^ nat (1 + int i - 1) < 2 ^ 1024" by simp
    from retry_loop_first_success [OF assms(2) that(4) that(5) a b c, of rnd None]
    show ?thesis by (auto simp: retry_call_def)
  qed
  have single: "retry_loop h func rnd attempt last_exception w
                  = Some (Inr v, w\<lparr>now := now w + snd (func (calls w)), calls := Suc (calls w)\<rparr>)"
    if "attempt \<le> max_attempts h" and "fst (func (calls w)) = Returns v"
    using that by (simp add: retry_loop_returns invoke_def)
  have three: "\<exists>w'. retry_call h name func rnd w = Some (Inr v, w')
                 \<and> calls w' = calls w + 3
                 \<and> slept w' = slept w @ [base_delay h + rnd (draws w) / 10,
                                          2 * base_delay h + rnd (draws w + 1) / 10]
                 \<and> sum_list (slept w') - sum_list (slept w) \<ge> base_delay h + 2 * base_delay h
                 \<and> now w' - now w \<ge> base_delay h + 2 * base_delay h"
    if m: "max_attempts h = 3" and fin: "2 * base_delay h < 2 ^ 1024"
      and f0: "\<exists>e d. func (calls w) = (Raises e, d)"
      and f1: "\<exists>e d. func (calls w + 1) = (Raises e, d)"
      and f2: "fst (func (calls w + 2)) = Returns v"
  proof -
    have p1: "\<forall>i<2. \<exists>e d. func (calls w + i) = (Raises e, d)"
      using f0 f1 by (auto simp: less_Suc_eq numeral_2_eq_2)
    have p3: "1 + int 2 \<le> max_attempts h" using m by simp
    have p4: "1 + int 2 \<le> 1025" by simp
    have "base_delay h < 2 ^ 1024"
    proof (cases "0 \<le> base_delay h")
      case True
      then have "base_delay h \<le> 2 * base_delay h" by simp
      with fin show ?thesis by linarith
    next
      case False
      then have "base_delay h < 0" by simp
      also have "(0::real) < 2 ^ 1024" by simp
      finally show ?thesis .
    qed
    with fin have p5: "\<forall>i<2. base_delay h * 2 ^ nat (1 + int i - 1) < 2 ^ 1024"
      by (auto simp: less_Suc_eq numeral_2_eq_2 mult.commute)
    from retry_loop_first_success [OF assms(2) p1 f2 p3 p4 p5, of rnd None] obtain w' where
      r: "retry_loop h func rnd 1 None w = Some (Inr v, w')" "calls w' = calls w + 2 + 1"
         "slept w' = slept w @
            map (\<lambda>i. base_delay h * 2 ^ nat (1 + int i - 1) + rnd (draws w + i) / 10) [0..<2]"
         "now w' - now w \<ge> sum_list (slept w') - sum_list (slept w)"
      by blast
    have u: "[0..<2] = [0, Suc 0]" by (simp add: numeral_2_eq_2)
    from r(3) have s: "slept w' = slept w @ [base_delay h + rnd (draws w) / 10,
                                          2 * base_delay h + rnd (draws w + 1) / 10]"
      by (simp add: u mult.commute)
    have "0 \<le> rnd (draws w)" "0 \<le> rnd (draws w + 1)" using assms(1) by simp_all
    then have t: "sum_list (slept w') - sum_list (slept w) \<ge> base_delay h + 2 * base_delay h"
      by (simp add: s)
    with r(4) have "now w' - now w \<ge> base_delay h + 2 * base_delay h" by linarith
    with r(1) r(2) s t show ?thesis by (simp add: retry_call_def)
  qed
  from general single three show ?thesis by blast
qed

theorem retry_call_first_success_witness:
  "(\<forall>i. 0 \<le> half i) \<and> (\<forall>i. 0 \<le> snd (flaky i))
   \<and> max_attempts \<lparr>max_attempts = 3, base_delay = 1\<rparr> = 3
   \<and> 2 * base_delay \<lparr>max_attempts = 3, base_delay = 1\<rparr> < 2 ^ 1024
   \<and> (\<exists>e d. flaky (calls w0) = (Raises e, d))
   \<and> (\<exists>e d. flaky (calls w0 + 1) = (Raises e, d))
   \<and> fst (flaky (calls w0 + 2)) = Returns ''paid''
   \<and> (\<exists>w'. retry_call \<lparr>max_attempts = 3, base_delay = 1\<rparr> ''order'' flaky half w0 = Some (Inr ''paid'', w')
          \<and> calls w' = calls w0 + 3
          \<and> slept w' = slept w0 @ [1 + half (draws w0) / 10, 2 * 1 + half (draws w0 + 1) / 10]
          \<and> sum_list (slept w') - sum_list (slept w0) \<ge> 1 + 2 * 1
          \<and> now w' - now w0 \<ge> 1 + 2 * 1)
   \<and> (1::int) \<le> max_attempts \<lparr>max_attempts = 3, base_delay = 1\<rparr>
   \<and> fst (healthy (calls w0)) = Returns ''ok''
   \<and> retry_loop \<lparr>max_attempts = 3, base_delay = 1\<rparr> healthy half 1 None w0
       = Some (Inr ''ok'', w0\<lparr>now := now w0 + snd (healthy (calls w0)), calls := Suc (calls w0)\<rparr>)
   \<and> int 2 < max_attempts \<lparr>max_attempts = 3, base_delay = 1\<rparr> \<and> (2::nat) \<le> 1024
   \<and> (\<exists>w'. retry_call \<lparr>max_attempts = 3, base_delay = 1\<rparr> ''order'' flaky half w0 = Some (Inr ''paid'', w')
          \<and> calls w' = calls w0 + 2 + 1)"
proof -
  let ?h = "\<lparr>max_attempts = 3, base_delay = 1\<rparr>"
  have h0: "\<forall>i. 0 \<le> half i" by (simp add: half_def)
  have hd: "\<forall>i. 0 \<le> snd (flaky i)" by (simp add: flaky_def)
  have hd': "\<forall>i. 0 \<le> snd (healthy i)" by (simp add: healthy_def)
  have h1: "max_attempts ?h = 3" by simp
  have h2: "\<exists>e d. flaky (calls w0) = (Raises e, d)" by (simp add: flaky_def w0_def)
  have h3: "\<exists>e d. flaky (calls w0 + 1) = (Raises e, d)" by (simp add: flaky_def w0_def)
  have h4: "fst (flaky (calls w0 + 2)) = Returns ''paid''" by (simp add: flaky_def w0_def)
  have h5: "int 2 < max_attempts ?h" by simp
  have h6: "\<forall>i<2. \<exists>e d. flaky (calls w0 + i) = (Raises e, d)" by (simp add: flaky_def w0_def)
  have h7: "(1::int) \<le> max_attempts ?h" by simp
  have h8: "fst (healthy (calls w0)) = Returns ''ok''" by (simp add: healthy_def)
  have h9: "(2::nat) \<le> 1024" by simp
  have hf: "2 * base_delay ?h < 2 ^ 1024" by simp
  have hg: "\<forall>i<2. base_delay ?h * 2 ^ i < 2 ^ 1024"
  proof (intro allI impI)
    fix i :: nat
    assume "i < 2"
    then have "(2::real) ^ i < 2 ^ 1024" by (intro power_strict_increasing) simp_all
    then show "base_delay ?h * 2 ^ i < 2 ^ 1024" by simp
  qed
  from retry_call_first_success
         [OF h0 hd, where h = "?h" and w = w0 and v = "''paid''" and name = "''order''"]
       h1 hf h2 h3 h4
  have "\<exists>w'. retry_call ?h ''order'' flaky half w0 = Some (Inr ''paid'', w')
          \<and> calls w' = calls w0 + 3
          \<and> slept w' = slept w0 @ [base_delay ?h + half (draws w0) / 10,
                                     2 * base_delay ?h + half (draws w0 + 1) / 10]
          \<and> sum_list (slept w') - sum_list (slept w0) \<ge> base_delay ?h + 2 * base_delay ?h
          \<and> now w' - now w0 \<ge> base_delay ?h + 2 * base_delay ?h"
    by blast
  then have a: "\<exists>w'. retry_call ?h ''order'' flaky half w0 = Some (Inr ''paid'', w')
          \<and> calls w' = calls w0 + 3
          \<and> slept w' = slept w0 @ [1 + half (draws w0) / 10, 2 * 1 + half (draws w0 + 1) / 10]
          \<and> sum_list (slept w') - sum_list (slept w0) \<ge> 1 + 2 * 1
          \<and> now w' - now w0 \<ge> 1 + 2 * 1"
    by simp
  from retry_call_first_success
         [OF h0 hd', where h = "?h" and w = w0 and v = "''ok''" and attempt = 1
            and last_exception = None] h7 h8
  have b: "retry_loop ?h healthy half 1 None w0
       = Some (Inr ''ok'', w0\<lparr>now := now w0 + snd (healthy (calls w0)), calls := Suc (calls w0)\<rparr>)"
    by blast
  from retry_call_first_success
         [OF h0 hd, where h = "?h" and w = w0 and v = "''paid''" and name = "''order''" and k = 2]
       h4 h5 h6 h9 hg
  have c: "\<exists>w'. retry_call ?h ''order'' flaky half w0 = Some (Inr ''paid'', w') \<and> calls w' = calls w0 + 2 + 1"
    by blast
  from a b c h0 hd h1 hf h2 h3 h4 h5 h7 h8 h9 show ?thesis by blast
qed

text \<open>
  C10. In every registry reachable from the empty one by \<open>call_service\<close>,
  \<open>get_status\<close> and \<open>reset_breaker\<close>, a breaker that is \<open>OPEN\<close> has a
  \<open>last_failure_time\<close>, so the check of an open breaker compares the time passed with
  the timeout and never takes the branch for a missing timestamp.
\<close>

theorem open_implies_last_failure_time:
  assumes "reachable m" and "breakers m name = Some b" and "state b = OPEN"
  shows "\<exists>t. last_failure_time b = Some t
           \<and> (\<forall>w. should_attempt_reset b w = (now w - t > real_of_int (timeout_seconds b)))"
proof -
  from reachable_open [OF assms] obtain t where "last_failure_time b = Some t" by auto
  then show ?thesis by (simp add: should_attempt_reset_def)
qed

theorem open_implies_last_failure_time_witness:
  "reachable tripped \<and> breakers tripped ''catalog'' = Some open_catalog
   \<and> state open_catalog = OPEN
   \<and> (\<exists>t. last_failure_time open_catalog = Some t
          \<and> (\<forall>w. should_attempt_reset open_catalog w
                  = (now w - t > real_of_int (timeout_seconds open_catalog))))"
proof -
  have h2: "breakers tripped ''catalog'' = Some open_catalog" by (simp add: tripped_def)
  have h3: "state open_catalog = OPEN" by (simp add: open_catalog_def)
  from open_implies_last_failure_time [OF tripped_reachable h2 h3] tripped_reachable h2 h3
  show ?thesis by blast
qed

end
